theory Spec2Isabelle
  imports Main "HOL-Library.Sublist"
begin

section \<open>The diff applier of akita/tools/diff.py\<close>

text \<open>
  The development embeds \<^verbatim>\<open>DiffApplier.apply_unified_diff\<close>. The function parses a
  unified diff with the library whatthepatch, and for each patch backs the target file up
  under \<^verbatim>\<open><base>/.akita/backups\<close>, applies the hunks, writes the result, and on an
  exception replays the list of backups.

  What the model fixes:
  \<^item> text is a \<open>string\<close>, one \<open>char\<close> per character of the decoded file;
  \<^item> a file system path, once resolved, is the list of its components below the root;
  \<^item> the file system is a map from resolved paths to the contents of regular files.
    Directories, symbolic links and permissions are not part of the state: a path exists
    when a regular file is stored at it, \<^verbatim>\<open>mkdir(parents=True, exist_ok=True)\<close> cannot
    fail, and the only operations that raise are those applied to a missing file;
  \<^item> every library call that touches the file system leaves an event in the trace of
    the world, in the order of the calls.
\<close>

subsection \<open>Patches\<close>

datatype tag = Context | Add | Delete

record hunk =
  old_start :: nat
  old_count :: nat
  new_start :: nat
  new_count :: nat
  lines :: "(tag \<times> string) list"

text \<open>
  The header of a whatthepatch diff object. The applier only tests the two paths for
  truth and compares them with \<^verbatim>\<open>"/dev/null"\<close>, so Python's \<^verbatim>\<open>None\<close> and the empty
  string are both the empty string here.
\<close>

record patch_header =
  old_path :: string
  new_path :: string

record patch =
  header :: "patch_header option"
  hunks :: "hunk list"

subsection \<open>Hunk application\<close>

text \<open>
  Modelled from the spec: \<^verbatim>\<open>whatthepatch.apply_diff\<close> is a third-party library whose
  code is not part of the repository. The definition follows section 4.4 of the
  specification: a cursor into the original lines and an output accumulator; a hunk first
  copies the lines from the cursor up to \<open>old_start - 1\<close>, then walks its tagged lines,
  where a context or delete line must equal the original line at the cursor; the lines
  after the last hunk are copied. \<open>None\<close> is the failure of the application (the library
  raising, or returning \<^verbatim>\<open>None\<close> as the applier tests for).
\<close>

fun walk_lines :: "string list \<Rightarrow> (tag \<times> string) list \<Rightarrow> nat \<Rightarrow> string list
    \<Rightarrow> (nat \<times> string list) option" where
  "walk_lines orig [] c out = Some (c, out)"
| "walk_lines orig ((Add, l) # ls) c out = walk_lines orig ls c (out @ [l])"
| "walk_lines orig ((Context, l) # ls) c out =
     (if c < length orig \<and> orig ! c = l then walk_lines orig ls (Suc c) (out @ [l])
      else None)"
| "walk_lines orig ((Delete, l) # ls) c out =
     (if c < length orig \<and> orig ! c = l then walk_lines orig ls (Suc c) out
      else None)"

fun apply_hunks :: "string list \<Rightarrow> hunk list \<Rightarrow> nat \<Rightarrow> string list
    \<Rightarrow> string list option" where
  "apply_hunks orig [] c out = Some (out @ drop c orig)"
| "apply_hunks orig (h # hs) c out =
     (case walk_lines orig (lines h) (max c (old_start h - 1))
             (out @ take (old_start h - 1 - c) (drop c orig)) of
        None \<Rightarrow> None
      | Some (c', out') \<Rightarrow> apply_hunks orig hs c' out')"

definition apply_diff :: "patch \<Rightarrow> string list \<Rightarrow> string list option" where
  "apply_diff p orig = apply_hunks orig (hunks p) 0 []"

subsection \<open>Text\<close>

text \<open>
  \<^verbatim>\<open>open(..., "r")\<close> translates \<^verbatim>\<open>\r\n\<close> and \<^verbatim>\<open>\r\<close> to \<^verbatim>\<open>\n\<close>;
  \<^verbatim>\<open>str.splitlines\<close> breaks at the line boundaries of Python (those below 256) and
  drops them; \<^verbatim>\<open>"\n".join(xs)\<close> puts one newline between two lines.
\<close>

fun universal_newlines :: "string \<Rightarrow> string" where
  "universal_newlines [] = []"
| "universal_newlines [c] = (if c = CHR 0x0D then [CHR 0x0A] else [c])"
| "universal_newlines (c # d # cs) =
     (if c = CHR 0x0D \<and> d = CHR 0x0A then CHR 0x0A # universal_newlines cs
      else if c = CHR 0x0D then CHR 0x0A # universal_newlines (d # cs)
      else c # universal_newlines (d # cs))"

definition is_linebreak :: "char \<Rightarrow> bool" where
  "is_linebreak c \<longleftrightarrow> c \<in> {CHR 0x0A, CHR 0x0B, CHR 0x0C, CHR 0x0D, CHR 0x1C, CHR 0x1D,
      CHR 0x1E, CHR 0x85}"

fun splitlines_from :: "string \<Rightarrow> string \<Rightarrow> string list" where
  "splitlines_from cur [] = (if cur = [] then [] else [cur])"
| "splitlines_from cur [c] = (if is_linebreak c then [cur] else [cur @ [c]])"
| "splitlines_from cur (c # d # cs) =
     (if c = CHR 0x0D \<and> d = CHR 0x0A then cur # splitlines_from [] cs
      else if is_linebreak c then cur # splitlines_from [] (d # cs)
      else splitlines_from (cur @ [c]) (d # cs))"

definition splitlines :: "string \<Rightarrow> string list" where
  "splitlines s = splitlines_from [] s"

fun join_newline :: "string list \<Rightarrow> string" where
  "join_newline [] = []"
| "join_newline [l] = l"
| "join_newline (l # m # ls) = l @ [CHR 0x0A] @ join_newline (m # ls)"

subsection \<open>Paths\<close>

text \<open>
  A \<^verbatim>\<open>pathlib.Path\<close> is its anchor (absolute or not) and its parts; parsing a string
  drops empty components and \<^verbatim>\<open>.\<close>, and keeps \<^verbatim>\<open>..\<close>. Joining with an absolute
  string replaces the left side. \<^verbatim>\<open>resolve()\<close> makes the path absolute against the
  working directory and removes \<^verbatim>\<open>..\<close> with the component before it (at the root,
  \<^verbatim>\<open>..\<close> stays at the root); without symbolic links that is what the kernel does with a
  path that is not resolved, so every file system operation goes through \<open>resolve\<close>.
\<close>

type_synonym path = "string list"

record pure_path =
  anchored :: bool
  parts :: "string list"

fun split_slash_from :: "string \<Rightarrow> string \<Rightarrow> string list" where
  "split_slash_from cur [] = [cur]"
| "split_slash_from cur (c # cs) =
     (if c = CHR ''/'' then cur # split_slash_from [] cs
      else split_slash_from (cur @ [c]) cs)"

definition is_absolute :: "string \<Rightarrow> bool" where
  "is_absolute s = (case s of [] \<Rightarrow> False | c # _ \<Rightarrow> c = CHR ''/'')"

definition Path :: "string \<Rightarrow> pure_path" where
  "Path s = \<lparr>anchored = is_absolute s,
            parts = filter (\<lambda>c. c \<noteq> [] \<and> c \<noteq> ''.'') (split_slash_from [] s)\<rparr>"

definition joinpath :: "pure_path \<Rightarrow> string \<Rightarrow> pure_path" where
  "joinpath p s = (if is_absolute s then Path s else p\<lparr>parts := parts p @ parts (Path s)\<rparr>)"

definition up_step :: "path \<Rightarrow> string \<Rightarrow> path" where
  "up_step acc c = (if c = ''..'' then butlast acc else acc @ [c])"

definition resolve :: "string \<Rightarrow> pure_path \<Rightarrow> path" where
  "resolve cwd p = foldl up_step [] ((if anchored p then [] else parts (Path cwd)) @ parts p)"

definition path_name :: "path \<Rightarrow> string" where
  "path_name p = (if p = [] then [] else last p)"

definition parent :: "path \<Rightarrow> path" where
  "parent p = butlast p"

subsection \<open>The file system\<close>

datatype event =
    MakeDirs path
  | Copy path path
  | ReadText path
  | WriteText path
  | Move path path
  | Unlink path

record world =
  files :: "path \<rightharpoonup> string"
  trace :: "event list"

datatype exn = FileNotFoundError | SameFileError | PatchFailure

text \<open>
  The library calls of the applier, on resolved paths:
  \<^verbatim>\<open>Path.exists\<close>, \<^verbatim>\<open>Path.mkdir(parents=True, exist_ok=True)\<close>, \<^verbatim>\<open>shutil.copy2\<close>,
  \<^verbatim>\<open>open(p, "r").read()\<close>, \<^verbatim>\<open>open(p, "w").write(s)\<close> (on POSIX, where a newline is
  written as it is), \<^verbatim>\<open>shutil.move\<close> and \<^verbatim>\<open>Path.unlink\<close>. A call on a file that is
  missing raises; \<^verbatim>\<open>copy2\<close> of a file onto itself raises.
\<close>

definition path_exists :: "world \<Rightarrow> path \<Rightarrow> bool" where
  "path_exists w p \<longleftrightarrow> files w p \<noteq> None"

definition mkdir_parents :: "path \<Rightarrow> world \<Rightarrow> world" where
  "mkdir_parents p w = w\<lparr>trace := trace w @ [MakeDirs p]\<rparr>"

definition copy2 :: "path \<Rightarrow> path \<Rightarrow> world \<Rightarrow> exn + world" where
  "copy2 src dst w =
     (case files w src of
        None \<Rightarrow> Inl FileNotFoundError
      | Some c \<Rightarrow>
          if src = dst then Inl SameFileError
          else Inr (w\<lparr>files := (files w)(dst \<mapsto> c), trace := trace w @ [Copy src dst]\<rparr>))"

definition read_text :: "path \<Rightarrow> world \<Rightarrow> exn + (string \<times> world)" where
  "read_text p w =
     (case files w p of
        None \<Rightarrow> Inl FileNotFoundError
      | Some c \<Rightarrow> Inr (universal_newlines c, w\<lparr>trace := trace w @ [ReadText p]\<rparr>))"

definition write_text :: "path \<Rightarrow> string \<Rightarrow> world \<Rightarrow> world" where
  "write_text p s w = w\<lparr>files := (files w)(p \<mapsto> s), trace := trace w @ [WriteText p]\<rparr>"

definition move :: "path \<Rightarrow> path \<Rightarrow> world \<Rightarrow> exn + world" where
  "move src dst w =
     (case files w src of
        None \<Rightarrow> Inl FileNotFoundError
      | Some c \<Rightarrow>
          Inr (w\<lparr>files := ((files w)(src := None))(dst \<mapsto> c),
                 trace := trace w @ [Move src dst]\<rparr>))"

definition unlink :: "path \<Rightarrow> world \<Rightarrow> exn + world" where
  "unlink p w =
     (case files w p of
        None \<Rightarrow> Inl FileNotFoundError
      | Some c \<Rightarrow> Inr (w\<lparr>files := (files w)(p := None), trace := trace w @ [Unlink p]\<rparr>))"

text \<open>
  The files an event reads, writes or deletes. Making directories touches no file.
\<close>

fun accessed :: "event \<Rightarrow> path list" where
  "accessed (MakeDirs p) = []"
| "accessed (Copy s d) = [s, d]"
| "accessed (ReadText p) = [p]"
| "accessed (WriteText p) = [p]"
| "accessed (Move s d) = [s, d]"
| "accessed (Unlink p) = [p]"

subsection \<open>apply_unified_diff\<close>

text \<open>
  \<open>Returned b\<close> is the call returning \<open>b\<close>; \<open>Escaped e\<close> is an exception that leaves
  the call (one raised inside the \<^verbatim>\<open>except\<close> block).
\<close>

datatype outcome = Returned bool | Escaped exn

type_synonym backups = "(path \<times> path option) list"

text \<open>Lines 32 to 41: the path of the header that names the target.\<close>

definition rel_path_of :: "patch_header \<Rightarrow> string" where
  "rel_path_of h =
     (if old_path h = ''/dev/null'' then new_path h
      else if new_path h = ''/dev/null'' then old_path h
      else if new_path h \<noteq> [] then new_path h else old_path h)"

text \<open>Lines 27 and 43: the patches the loop passes over with \<^verbatim>\<open>continue\<close>.\<close>

definition skipped :: "patch \<Rightarrow> bool" where
  "skipped p \<longleftrightarrow>
     (case header p of
        None \<Rightarrow> True
      | Some h \<Rightarrow> rel_path_of h = [] \<or> rel_path_of h = ''/dev/null'')"

text \<open>Lines 47 and 48.\<close>

definition strip_ab :: "string \<Rightarrow> string" where
  "strip_ab rel = (if prefix ''a/'' rel \<or> prefix ''b/'' rel then drop 2 rel else rel)"

definition backup_dir :: "string \<Rightarrow> pure_path" where
  "backup_dir base_path = joinpath (joinpath (Path base_path) ''.akita'') ''backups''"

text \<open>Line 50, for a patch that is not skipped.\<close>

definition target_file :: "string \<Rightarrow> string \<Rightarrow> patch_header \<Rightarrow> path" where
  "target_file base_path cwd h =
     resolve cwd (joinpath (Path base_path) (strip_ab (rel_path_of h)))"

text \<open>Line 58.\<close>

definition backup_file :: "string \<Rightarrow> string \<Rightarrow> path \<Rightarrow> path" where
  "backup_file base_path cwd target =
     resolve cwd (joinpath (backup_dir base_path) (path_name target @ ''.bak''))"

text \<open>
  Lines 88 to 92: the \<^verbatim>\<open>except\<close> block walks the list of backups from its first entry.
  An exception raised here leaves the call, and the entries after it are not visited.
\<close>

fun rollback :: "backups \<Rightarrow> world \<Rightarrow> outcome \<times> world" where
  "rollback [] w = (Returned False, w)"
| "rollback ((target, Some backup) # bs) w =
     (if path_exists w backup then
        (case move backup target w of
           Inl e \<Rightarrow> (Escaped e, w)
         | Inr w' \<Rightarrow> rollback bs w')
      else rollback bs w)"
| "rollback ((target, None) # bs) w =
     (if path_exists w target then
        (case unlink target w of
           Inl e \<Rightarrow> (Escaped e, w)
         | Inr w' \<Rightarrow> rollback bs w')
      else rollback bs w)"

text \<open>
  One turn of the loop, lines 27 to 81. \<open>Next\<close> goes on with the following patch,
  \<open>Return_False\<close> is the \<^verbatim>\<open>return False\<close> of line 54, and \<open>Raise\<close> is an exception
  inside the \<^verbatim>\<open>try\<close> block, with the backups recorded when it is raised.
\<close>

datatype step = Next backups world | Return_False world | Raise exn backups world

text \<open>Lines 56 to 62.\<close>

definition create_backup :: "string \<Rightarrow> string \<Rightarrow> path \<Rightarrow> backups \<Rightarrow> world \<Rightarrow> step" where
  "create_backup base_path cwd target bk w =
     (if path_exists w target then
        (case copy2 target (backup_file base_path cwd target) w of
           Inl e \<Rightarrow> Raise e bk w
         | Inr w' \<Rightarrow> Next (bk @ [(target, Some (backup_file base_path cwd target))]) w')
      else Next (bk @ [(target, None)]) w)"

text \<open>Lines 64 to 81, with the hunk application \<open>ad\<close> of the library as a parameter.\<close>

definition patch_and_write :: "(patch \<Rightarrow> string list \<Rightarrow> string list option) \<Rightarrow> patch
    \<Rightarrow> path \<Rightarrow> backups \<Rightarrow> world \<Rightarrow> step" where
  "patch_and_write ad p target bk w =
     (case (if path_exists w target then read_text target w else Inr ([], w)) of
        Inl e \<Rightarrow> Raise e bk w
      | Inr (content, w1) \<Rightarrow>
          (case ad p (splitlines content) of
             None \<Rightarrow> Raise PatchFailure bk w1
           | Some patched_lines \<Rightarrow>
               Next bk (write_text target (join_newline patched_lines @ [CHR 0x0A])
                          (mkdir_parents (parent target) w1))))"

definition apply_patch :: "(patch \<Rightarrow> string list \<Rightarrow> string list option) \<Rightarrow> string \<Rightarrow> string
    \<Rightarrow> patch \<Rightarrow> backups \<Rightarrow> world \<Rightarrow> step" where
  "apply_patch ad base_path cwd p bk w =
     (case header p of
        None \<Rightarrow> Next bk w
      | Some h \<Rightarrow>
          if rel_path_of h = [] \<or> rel_path_of h = ''/dev/null'' then Next bk w
          else if old_path h \<noteq> ''/dev/null'' \<and> \<not> path_exists w (target_file base_path cwd h)
          then Return_False w
          else
            (case create_backup base_path cwd (target_file base_path cwd h) bk w of
               Next bk' w' \<Rightarrow> patch_and_write ad p (target_file base_path cwd h) bk' w'
             | other \<Rightarrow> other))"

fun apply_patches :: "(patch \<Rightarrow> string list \<Rightarrow> string list option) \<Rightarrow> string \<Rightarrow> string
    \<Rightarrow> patch list \<Rightarrow> backups \<Rightarrow> world \<Rightarrow> outcome \<times> world" where
  "apply_patches ad base_path cwd [] bk w = (Returned True, w)"
| "apply_patches ad base_path cwd (p # ps) bk w =
     (case apply_patch ad base_path cwd p bk w of
        Next bk' w' \<Rightarrow> apply_patches ad base_path cwd ps bk' w'
      | Return_False w' \<Rightarrow> (Returned False, w')
      | Raise e bk' w' \<Rightarrow> rollback bk' w')"

text \<open>
  The whole call, lines 15 to 93. The list \<open>patches\<close> is what
  \<^verbatim>\<open>whatthepatch.parse_patch(diff_text)\<close> returned, \<open>cwd\<close> is the working directory of
  the process.
\<close>

definition apply_unified_diff :: "(patch \<Rightarrow> string list \<Rightarrow> string list option)
    \<Rightarrow> patch list \<Rightarrow> string \<Rightarrow> string \<Rightarrow> world \<Rightarrow> outcome \<times> world" where
  "apply_unified_diff ad patches base_path cwd w =
     (if patches = [] then (Returned False, w)
      else apply_patches ad base_path cwd patches []
             (mkdir_parents (resolve cwd (backup_dir base_path)) w))"

subsection \<open>Names used in the statements\<close>

text \<open>The base directory as the kernel sees it.\<close>

definition base_dir :: "string \<Rightarrow> string \<Rightarrow> path" where
  "base_dir base_path cwd = resolve cwd (Path base_path)"

text \<open>The target of a patch that the loop does not pass over, and the targets of a diff.\<close>

definition patch_target :: "string \<Rightarrow> string \<Rightarrow> patch \<Rightarrow> path option" where
  "patch_target base_path cwd p =
     (case header p of
        None \<Rightarrow> None
      | Some h \<Rightarrow>
          if rel_path_of h = [] \<or> rel_path_of h = ''/dev/null'' then None
          else Some (target_file base_path cwd h))"

definition targets :: "string \<Rightarrow> string \<Rightarrow> patch list \<Rightarrow> path list" where
  "targets base_path cwd ps = List.map_filter (patch_target base_path cwd) ps"

text \<open>Line 33: the patch creates its file.\<close>

definition is_new :: "patch \<Rightarrow> bool" where
  "is_new p = (case header p of None \<Rightarrow> False | Some h \<Rightarrow> old_path h = ''/dev/null'')"






text \<open>
  The diff of \<^verbatim>\<open>test_apply_unified_diff_success\<close>: one patch of \<^verbatim>\<open>hello.py\<close>, one hunk
  \<^verbatim>\<open>@@ -1 +1 @@\<close> that deletes the line and adds the new one.
\<close>

definition hello_patch :: patch where
  "hello_patch =
     \<lparr>header = Some \<lparr>old_path = ''hello.py'', new_path = ''hello.py''\<rparr>,
      hunks = [\<lparr>old_start = 1, old_count = 1, new_start = 1, new_count = 1,
                lines = [(Delete, ''print('hello')''), (Add, ''print('hello world')'')]\<rparr>]\<rparr>"

text \<open>A project directory \<^verbatim>\<open>/tmp/proj\<close> that holds \<^verbatim>\<open>hello.py\<close> and nothing else.\<close>

definition hello_world :: world where
  "hello_world =
     \<lparr>files = [[''tmp'', ''proj'', ''hello.py''] \<mapsto> ''print('hello')\<newline>''], trace = []\<rparr>"

text \<open>A patch of a file that does not exist.\<close>

definition missing_patch :: patch where
  "missing_patch =
     \<lparr>header = Some \<lparr>old_path = ''missing.py'', new_path = ''missing.py''\<rparr>,
      hunks = [\<lparr>old_start = 1, old_count = 1, new_start = 1, new_count = 1,
                lines = [(Delete, ''x''), (Add, ''y'')]\<rparr>]\<rparr>"

text \<open>
  The rollback test \<^verbatim>\<open>test_apply_unified_diff_rollback\<close>, with the two files in two
  directories under the same name: the second patch has the wrong context.
\<close>

definition twin_world :: world where
  "twin_world =
     \<lparr>files = [[''tmp'', ''proj'', ''sub1'', ''x.py''] \<mapsto> ''content 1\<newline>'',
               [''tmp'', ''proj'', ''sub2'', ''x.py''] \<mapsto> ''content 2\<newline>''],
      trace = []\<rparr>"

definition twin_patch_1 :: patch where
  "twin_patch_1 =
     \<lparr>header = Some \<lparr>old_path = ''sub1/x.py'', new_path = ''sub1/x.py''\<rparr>,
      hunks = [\<lparr>old_start = 1, old_count = 1, new_start = 1, new_count = 1,
                lines = [(Delete, ''content 1''), (Add, ''modified 1'')]\<rparr>]\<rparr>"

definition twin_patch_2 :: patch where
  "twin_patch_2 =
     \<lparr>header = Some \<lparr>old_path = ''sub2/x.py'', new_path = ''sub2/x.py''\<rparr>,
      hunks = [\<lparr>old_start = 1, old_count = 1, new_start = 1, new_count = 1,
                lines = [(Delete, ''WRONG CONTENT''), (Add, ''modified 2'')]\<rparr>]\<rparr>"


text \<open>A patch with \<^verbatim>\<open>/dev/null\<close> on both sides.\<close>

definition null_patch :: patch where
  "null_patch =
     \<lparr>header = Some \<lparr>old_path = ''/dev/null'', new_path = ''/dev/null''\<rparr>,
      hunks = [\<lparr>old_start = 0, old_count = 0, new_start = 1, new_count = 1,
                lines = [(Add, ''x'')]\<rparr>]\<rparr>"











section \<open>Facts about paths\<close>

lemma split_slash_from_no_slash:
  "c \<in> set (split_slash_from cur s) \<Longrightarrow> CHR ''/'' \<notin> set cur \<Longrightarrow> CHR ''/'' \<notin> set c"
  by (induction cur s rule: split_slash_from.induct) (auto split: if_splits)

lemma split_slash_from_plain:
  "CHR ''/'' \<notin> set s \<Longrightarrow> split_slash_from cur s = [cur @ s]"
  by (induction cur s rule: split_slash_from.induct) auto

lemma parts_Path_no_slash: "c \<in> set (parts (Path s)) \<Longrightarrow> CHR ''/'' \<notin> set c"
  by (auto simp: Path_def dest: split_slash_from_no_slash)

lemma Path_plain:
  "CHR ''/'' \<notin> set s \<Longrightarrow> s \<noteq> [] \<Longrightarrow> s \<noteq> ''.'' \<Longrightarrow>
   Path s = \<lparr>anchored = False, parts = [s]\<rparr>"
  by (cases s) (auto simp: Path_def is_absolute_def split_slash_from_plain)

lemma foldl_up_step_subset: "set (foldl up_step acc xs) \<subseteq> set acc \<union> set xs"
proof (induction xs arbitrary: acc)
  case Nil
  then show ?case by simp
next
  case (Cons x xs)
  have "set (up_step acc x) \<subseteq> set acc \<union> {x}"
    by (auto simp: up_step_def dest: in_set_butlastD)
  with Cons.IH [of "up_step acc x"] show ?case by auto
qed

lemma foldl_up_step_plain:
  "''..'' \<notin> set xs \<Longrightarrow> foldl up_step acc xs = acc @ xs"
  by (induction xs arbitrary: acc) (auto simp: up_step_def)

lemma resolve_joinpath_plain:
  "\<not> is_absolute s \<Longrightarrow> ''..'' \<notin> set (parts (Path s)) \<Longrightarrow>
   resolve cwd (joinpath p s) = resolve cwd p @ parts (Path s)"
  by (simp add: resolve_def joinpath_def foldl_up_step_plain)

lemma resolve_no_slash:
  "c \<in> set (resolve cwd p) \<Longrightarrow> \<forall>d \<in> set (parts p). CHR ''/'' \<notin> set d \<Longrightarrow>
   CHR ''/'' \<notin> set c"
  using foldl_up_step_subset [of "[]" "(if anchored p then [] else parts (Path cwd)) @ parts p"]
  by (auto simp: resolve_def dest: parts_Path_no_slash split: if_splits)

lemma parts_joinpath_no_slash:
  "\<forall>d \<in> set (parts p). CHR ''/'' \<notin> set d \<Longrightarrow> c \<in> set (parts (joinpath p s)) \<Longrightarrow>
   CHR ''/'' \<notin> set c"
  by (auto simp: joinpath_def dest: parts_Path_no_slash split: if_splits)

lemma target_file_no_slash:
  "c \<in> set (target_file base_path cwd h) \<Longrightarrow> CHR ''/'' \<notin> set c"
proof -
  assume c: "c \<in> set (target_file base_path cwd h)"
  have "\<forall>d \<in> set (parts (joinpath (Path base_path) (strip_ab (rel_path_of h)))).
          CHR ''/'' \<notin> set d"
    using parts_joinpath_no_slash [of "Path base_path"] parts_Path_no_slash by blast
  with c show ?thesis
    unfolding target_file_def by (rule resolve_no_slash)
qed

lemma path_name_no_slash:
  "\<forall>c \<in> set p. CHR ''/'' \<notin> set c \<Longrightarrow> CHR ''/'' \<notin> set (path_name p)"
  by (auto simp: path_name_def)

lemma Path_akita: "Path ''.akita'' = \<lparr>anchored = False, parts = [''.akita'']\<rparr>"
  by (simp add: Path_plain)

lemma Path_backups: "Path ''backups'' = \<lparr>anchored = False, parts = [''backups'']\<rparr>"
  by (simp add: Path_plain)

lemma resolve_backup_dir:
  "resolve cwd (backup_dir base_path) = base_dir base_path cwd @ [''.akita'', ''backups'']"
  by (simp add: backup_dir_def base_dir_def resolve_def joinpath_def is_absolute_def
      Path_akita Path_backups foldl_up_step_plain up_step_def)

lemma backup_file_eq:
  assumes "CHR ''/'' \<notin> set (path_name t)"
  shows "backup_file base_path cwd t
         = base_dir base_path cwd @ [''.akita'', ''backups'', path_name t @ ''.bak'']"
proof -
  let ?n = "path_name t @ ''.bak''"
  have P: "Path ?n = \<lparr>anchored = False, parts = [?n]\<rparr>"
    using assms by (intro Path_plain) auto
  have na: "\<not> is_absolute ?n"
    using assms by (cases "path_name t") (auto simp: is_absolute_def)
  have "resolve cwd (joinpath (backup_dir base_path) ?n)
        = resolve cwd (backup_dir base_path) @ parts (Path ?n)"
    by (rule resolve_joinpath_plain [OF na]) (simp add: P)
  then show ?thesis
    by (simp add: backup_file_def P resolve_backup_dir)
qed

lemma backup_file_neq:
  assumes "\<forall>c \<in> set t. CHR ''/'' \<notin> set c"
  shows "backup_file base_path cwd t \<noteq> t"
proof
  assume eq: "backup_file base_path cwd t = t"
  have "backup_file base_path cwd t
         = base_dir base_path cwd @ [''.akita'', ''backups'', path_name t @ ''.bak'']"
    using assms by (intro backup_file_eq path_name_no_slash)
  with eq have t: "t = base_dir base_path cwd @ [''.akita'', ''backups'', path_name t @ ''.bak'']"
    by simp
  then have "t \<noteq> []" by auto
  moreover from t have "last t = path_name t @ ''.bak''"
    by (metis last_appendR last.simps list.distinct(1))
  ultimately show False by (simp add: path_name_def)
qed

lemma base_dir_tmp_proj: "base_dir ''/tmp/proj'' ''/'' = [''tmp'', ''proj'']"
  by (simp add: base_dir_def resolve_def Path_def is_absolute_def up_step_def)

text \<open>The equations that evaluate a call on a concrete diff and a concrete world.\<close>

lemmas run_defs = apply_unified_diff_def apply_patch_def rel_path_of_def target_file_def
  backup_file_def backup_dir_def create_backup_def patch_and_write_def copy2_def
  read_text_def write_text_def mkdir_parents_def move_def unlink_def path_exists_def
  splitlines_def is_linebreak_def apply_diff_def strip_ab_def Path_def joinpath_def
  resolve_def up_step_def is_absolute_def path_name_def parent_def

section \<open>The scenario of the test suite\<close>

lemma target_hello:
  "target_file base_path cwd \<lparr>old_path = ''hello.py'', new_path = ''hello.py''\<rparr>
   = base_dir base_path cwd @ [''hello.py'']"
proof -
  have P: "Path ''hello.py'' = \<lparr>anchored = False, parts = [''hello.py'']\<rparr>"
    by (simp add: Path_plain)
  have "resolve cwd (joinpath (Path base_path) ''hello.py'')
        = resolve cwd (Path base_path) @ parts (Path ''hello.py'')"
    by (rule resolve_joinpath_plain) (simp_all add: P is_absolute_def)
  then show ?thesis
    by (simp add: target_file_def rel_path_of_def strip_ab_def base_dir_def P)
qed

text \<open>
  Claim C8. When \<^verbatim>\<open>hello.py\<close> in the base directory contains \<^verbatim>\<open>print('hello')\<close> and a
  newline, applying the diff with the single patch that deletes that line and adds
  \<^verbatim>\<open>print('hello world')\<close> returns \<^verbatim>\<open>True\<close>, and afterwards the file contains
  \<^verbatim>\<open>print('hello world')\<close> followed by one newline. This holds for every base directory,
  working directory and state of the other files.
\<close>

theorem hello_world_applied:
  assumes "files w (base_dir base_path cwd @ [''hello.py'']) = Some ''print('hello')\<newline>''"
  shows "fst (apply_unified_diff apply_diff [hello_patch] base_path cwd w) = Returned True \<and>
         files (snd (apply_unified_diff apply_diff [hello_patch] base_path cwd w))
           (base_dir base_path cwd @ [''hello.py'']) = Some ''print('hello world')\<newline>''"
proof -
  let ?t = "base_dir base_path cwd @ [''hello.py'']"
  have ns: "\<forall>c \<in> set ?t. CHR ''/'' \<notin> set c"
    using target_file_no_slash
      [of _ base_path cwd "\<lparr>old_path = ''hello.py'', new_path = ''hello.py''\<rparr>"]
    by (simp only: target_hello) blast
  have neq1: "backup_file base_path cwd ?t \<noteq> ?t"
    by (rule backup_file_neq [OF ns])
  then have neq2: "?t \<noteq> backup_file base_path cwd ?t"
    by (rule not_sym)
  show ?thesis
    using assms neq1 neq2
    by (simp add: apply_unified_diff_def hello_patch_def apply_patch_def rel_path_of_def
        target_hello create_backup_def patch_and_write_def copy2_def read_text_def
        write_text_def mkdir_parents_def path_exists_def splitlines_def is_linebreak_def
        apply_diff_def)
qed

theorem hello_world_applied_witness:
  "files hello_world [''tmp'', ''proj'', ''hello.py''] = Some ''print('hello')\<newline>'' \<and>
   fst (apply_unified_diff apply_diff [hello_patch] ''/tmp/proj'' ''/'' hello_world)
     = Returned True \<and>
   files (snd (apply_unified_diff apply_diff [hello_patch] ''/tmp/proj'' ''/'' hello_world))
     [''tmp'', ''proj'', ''hello.py''] = Some ''print('hello world')\<newline>''"
proof -
  have h: "files hello_world (base_dir ''/tmp/proj'' ''/'' @ [''hello.py''])
           = Some ''print('hello')\<newline>''"
    by (simp add: hello_world_def base_dir_tmp_proj)
  show ?thesis
    using hello_world_applied [OF h] h by (simp add: base_dir_tmp_proj)
qed

section \<open>One turn of the loop\<close>

lemma patch_target_no_slash:
  "patch_target base_path cwd p = Some t \<Longrightarrow> \<forall>c \<in> set t. CHR ''/'' \<notin> set c"
  by (auto simp: patch_target_def split: option.splits if_splits dest: target_file_no_slash)

lemma apply_patch_skip:
  "patch_target base_path cwd p = None \<Longrightarrow> apply_patch ad base_path cwd p bk w = Next bk w"
  by (auto simp: patch_target_def apply_patch_def split: option.splits if_splits)

lemma apply_patch_target:
  assumes "patch_target base_path cwd p = Some t"
  shows "apply_patch ad base_path cwd p bk w =
    (case files w t of
       None \<Rightarrow>
         if \<not> is_new p then Return_False w
         else (case ad p [] of
                 None \<Rightarrow> Raise PatchFailure (bk @ [(t, None)]) w
               | Some out \<Rightarrow>
                   Next (bk @ [(t, None)])
                     (w\<lparr>files := (files w)(t \<mapsto> join_newline out @ [CHR 0x0A]),
                        trace := trace w @ [MakeDirs (parent t), WriteText t]\<rparr>))
     | Some c \<Rightarrow>
         (case ad p (splitlines (universal_newlines c)) of
            None \<Rightarrow>
              Raise PatchFailure (bk @ [(t, Some (backup_file base_path cwd t))])
                (w\<lparr>files := (files w)(backup_file base_path cwd t \<mapsto> c),
                   trace := trace w @ [Copy t (backup_file base_path cwd t), ReadText t]\<rparr>)
          | Some out \<Rightarrow>
              Next (bk @ [(t, Some (backup_file base_path cwd t))])
                (w\<lparr>files := (files w)(backup_file base_path cwd t \<mapsto> c,
                                        t \<mapsto> join_newline out @ [CHR 0x0A]),
                   trace := trace w @ [Copy t (backup_file base_path cwd t), ReadText t,
                                       MakeDirs (parent t), WriteText t]\<rparr>)))"
proof -
  have neq: "backup_file base_path cwd t \<noteq> t"
    by (rule backup_file_neq [OF patch_target_no_slash [OF assms]])
  then have neq': "t \<noteq> backup_file base_path cwd t" by (rule not_sym)
  obtain h where h: "header p = Some h" "rel_path_of h \<noteq> []" "rel_path_of h \<noteq> ''/dev/null''"
    "target_file base_path cwd h = t"
    using assms by (auto simp: patch_target_def split: option.splits if_splits)
  show ?thesis
    using neq neq' h
    by (auto simp: apply_patch_def create_backup_def patch_and_write_def copy2_def
        read_text_def write_text_def mkdir_parents_def path_exists_def is_new_def
        splitlines_def
        split: option.splits)
qed

section \<open>The rollback and the loop\<close>

lemma targets_Nil: "targets base_path cwd [] = []"
  by (simp add: targets_def)

lemma targets_Cons:
  "targets base_path cwd (p # ps) =
     (case patch_target base_path cwd p of
        None \<Rightarrow> targets base_path cwd ps
      | Some t \<Rightarrow> t # targets base_path cwd ps)"
  by (simp add: targets_def split: option.splits)


lemma rollback_within:
  assumes "\<forall>(t, ob) \<in> set bs. t \<in> A \<and> (\<forall>bf. ob = Some bf \<longrightarrow> bf \<in> A)"
  shows "(\<forall>q. q \<notin> A \<longrightarrow> files (snd (rollback bs w)) q = files w q) \<and>
         (\<exists>ev. trace (snd (rollback bs w)) = trace w @ ev \<and>
               (\<forall>e \<in> set ev. set (accessed e) \<subseteq> A))"
  using assms
proof (induction bs w rule: rollback.induct)
  case (1 w)
  then show ?case by simp
next
  case (2 target backup bs w)
  show ?case
  proof (cases "files w backup")
    case None
    with 2 show ?thesis by (simp add: path_exists_def)
  next
    case (Some c)
    let ?w' = "w\<lparr>files := ((files w)(backup := None))(target \<mapsto> c),
                  trace := trace w @ [Move backup target]\<rparr>"
    have mv: "move backup target w = Inr ?w'" using Some by (simp add: move_def)
    have ex: "path_exists w backup" using Some by (simp add: path_exists_def)
    have IH: "(\<forall>q. q \<notin> A \<longrightarrow> files (snd (rollback bs ?w')) q = files ?w' q) \<and>
         (\<exists>ev. trace (snd (rollback bs ?w')) = trace ?w' @ ev \<and>
               (\<forall>e \<in> set ev. set (accessed e) \<subseteq> A))"
      using 2 ex mv by auto
    from 2 have inA: "target \<in> A" "backup \<in> A" by auto
    from IH obtain ev where ev: "trace (snd (rollback bs ?w')) = trace ?w' @ ev"
      "\<forall>e \<in> set ev. set (accessed e) \<subseteq> A" by blast
    have "trace (snd (rollback bs ?w')) = trace w @ (Move backup target # ev)"
      using ev by simp
    moreover have "\<forall>e \<in> set (Move backup target # ev). set (accessed e) \<subseteq> A"
      using ev inA by auto
    ultimately have tr: "\<exists>ev. trace (snd (rollback bs ?w')) = trace w @ ev \<and>
               (\<forall>e \<in> set ev. set (accessed e) \<subseteq> A)" by blast
    have fr: "\<forall>q. q \<notin> A \<longrightarrow> files (snd (rollback bs ?w')) q = files w q"
      using IH inA by auto
    show ?thesis using ex mv tr fr by simp
  qed
next
  case (3 target bs w)
  show ?case
  proof (cases "files w target")
    case None
    with 3 show ?thesis by (simp add: path_exists_def)
  next
    case (Some c)
    let ?w' = "w\<lparr>files := (files w)(target := None), trace := trace w @ [Unlink target]\<rparr>"
    have ul: "unlink target w = Inr ?w'" using Some by (simp add: unlink_def)
    have ex: "path_exists w target" using Some by (simp add: path_exists_def)
    have IH: "(\<forall>q. q \<notin> A \<longrightarrow> files (snd (rollback bs ?w')) q = files ?w' q) \<and>
         (\<exists>ev. trace (snd (rollback bs ?w')) = trace ?w' @ ev \<and>
               (\<forall>e \<in> set ev. set (accessed e) \<subseteq> A))"
      using 3 ex ul by auto
    from 3 have inA: "target \<in> A" by auto
    from IH obtain ev where ev: "trace (snd (rollback bs ?w')) = trace ?w' @ ev"
      "\<forall>e \<in> set ev. set (accessed e) \<subseteq> A" by blast
    have "trace (snd (rollback bs ?w')) = trace w @ (Unlink target # ev)"
      using ev by simp
    moreover have "\<forall>e \<in> set (Unlink target # ev). set (accessed e) \<subseteq> A"
      using ev inA by auto
    ultimately have tr: "\<exists>ev. trace (snd (rollback bs ?w')) = trace w @ ev \<and>
               (\<forall>e \<in> set ev. set (accessed e) \<subseteq> A)" by blast
    have fr: "\<forall>q. q \<notin> A \<longrightarrow> files (snd (rollback bs ?w')) q = files w q"
      using IH inA by auto
    show ?thesis using ex ul tr fr by simp
  qed
qed

lemma apply_patch_cases [consumes 1, case_names ret raise nxt]:
  assumes "patch_target base_path cwd p = Some t"
  obtains
    (ret) "apply_patch ad base_path cwd p bk w = Return_False w"
  | (raise) ob w' where
      "apply_patch ad base_path cwd p bk w = Raise PatchFailure (bk @ [(t, ob)]) w'"
      "ob = map_option (\<lambda>c. backup_file base_path cwd t) (files w t)"
      "files w' = (case files w t of None \<Rightarrow> files w
                   | Some c \<Rightarrow> (files w)(backup_file base_path cwd t \<mapsto> c))"
      "trace w' = trace w @ (case files w t of None \<Rightarrow> []
                   | Some c \<Rightarrow> [Copy t (backup_file base_path cwd t), ReadText t])"
  | (nxt) ob w' out where
      "apply_patch ad base_path cwd p bk w = Next (bk @ [(t, ob)]) w'"
      "ob = map_option (\<lambda>c. backup_file base_path cwd t) (files w t)"
      "files w' = (case files w t of None \<Rightarrow> files w
                   | Some c \<Rightarrow> (files w)(backup_file base_path cwd t \<mapsto> c))
                  (t \<mapsto> join_newline out @ [CHR 0x0A])"
      "trace w' = trace w @ (case files w t of None \<Rightarrow> []
                   | Some c \<Rightarrow> [Copy t (backup_file base_path cwd t), ReadText t])
                  @ [MakeDirs (parent t), WriteText t]"
proof -
  note step = apply_patch_target [OF assms, of ad bk w]
  show thesis
  proof (cases "files w t")
    case None
    show thesis
    proof (cases "is_new p")
      case False
      with None step have "apply_patch ad base_path cwd p bk w = Return_False w" by simp
      then show thesis by (rule ret)
    next
      case True
      show thesis
      proof (cases "ad p []")
        case N: None
        show thesis
          by (rule raise [of None w]) (simp_all add: step None True N)
      next
        case (Some out)
        show thesis
          by (rule nxt [of None "w\<lparr>files := (files w)(t \<mapsto> join_newline out @ [CHR 0x0A]),
                        trace := trace w @ [MakeDirs (parent t), WriteText t]\<rparr>" out])
             (simp_all add: step None True Some)
      qed
    qed
  next
    case (Some c)
    show thesis
    proof (cases "ad p (splitlines (universal_newlines c))")
      case None
      show thesis
        by (rule raise [of "Some (backup_file base_path cwd t)"
              "w\<lparr>files := (files w)(backup_file base_path cwd t \<mapsto> c),
                 trace := trace w @ [Copy t (backup_file base_path cwd t), ReadText t]\<rparr>"])
           (simp_all add: step Some None)
    next
      case S: (Some out)
      show thesis
        by (rule nxt [of "Some (backup_file base_path cwd t)"
              "w\<lparr>files := (files w)(backup_file base_path cwd t \<mapsto> c,
                                        t \<mapsto> join_newline out @ [CHR 0x0A]),
                   trace := trace w @ [Copy t (backup_file base_path cwd t), ReadText t,
                                       MakeDirs (parent t), WriteText t]\<rparr>" out])
           (simp_all add: step Some S)
    qed
  qed
qed

lemma apply_patches_within:
  assumes "\<forall>t \<in> set (targets base_path cwd ps). t \<in> A \<and> backup_file base_path cwd t \<in> A"
    and "\<forall>(t, ob) \<in> set bk. t \<in> A \<and> (\<forall>bf. ob = Some bf \<longrightarrow> bf \<in> A)"
  shows "(\<forall>q. q \<notin> A \<longrightarrow> files (snd (apply_patches ad base_path cwd ps bk w)) q = files w q) \<and>
         (\<exists>ev. trace (snd (apply_patches ad base_path cwd ps bk w)) = trace w @ ev \<and>
               (\<forall>e \<in> set ev. set (accessed e) \<subseteq> A))"
  using assms
proof (induction ps arbitrary: bk w)
  case Nil
  then show ?case by simp
next
  case (Cons p ps)
  show ?case
  proof (cases "patch_target base_path cwd p")
    case None
    then have "apply_patches ad base_path cwd (p # ps) bk w
               = apply_patches ad base_path cwd ps bk w"
      by (simp add: apply_patch_skip)
    moreover have "\<forall>t \<in> set (targets base_path cwd ps). t \<in> A \<and> backup_file base_path cwd t \<in> A"
      using Cons.prems(1) None by (simp add: targets_Cons)
    ultimately show ?thesis using Cons.IH [OF _ Cons.prems(2)] by simp
  next
    case (Some t)
    let ?b = "backup_file base_path cwd t"
    have tA: "t \<in> A" "?b \<in> A"
      and rest: "\<forall>t \<in> set (targets base_path cwd ps). t \<in> A \<and> backup_file base_path cwd t \<in> A"
      using Cons.prems(1) Some by (simp_all add: targets_Cons)
    from Some show ?thesis
    proof (cases rule: apply_patch_cases [where ad = ad and bk = bk and w = w])
      case ret
      then show ?thesis by simp
    next
      case (raise ob w')
      let ?bk = "bk @ [(t, ob)]"
      have bk': "\<forall>(t, ob) \<in> set ?bk. t \<in> A \<and> (\<forall>bf. ob = Some bf \<longrightarrow> bf \<in> A)"
        using raise(2) Cons.prems(2) tA by auto
      have fr: "\<forall>q. q \<notin> A \<longrightarrow> files w' q = files w q"
        using raise(3) tA by (auto split: option.splits)
      obtain ev where ev: "trace w' = trace w @ ev" "\<forall>e \<in> set ev. set (accessed e) \<subseteq> A"
        using raise(4) tA by (cases "files w t") auto
      from rollback_within [OF bk', of w']
      obtain ev' where r: "\<forall>q. q \<notin> A \<longrightarrow> files (snd (rollback ?bk w')) q = files w' q"
        "trace (snd (rollback ?bk w')) = trace w' @ ev'" "\<forall>e \<in> set ev'. set (accessed e) \<subseteq> A"
        by blast
      have "trace (snd (rollback ?bk w')) = trace w @ (ev @ ev')"
        using r(2) ev(1) by simp
      moreover have "\<forall>e \<in> set (ev @ ev'). set (accessed e) \<subseteq> A"
        using r(3) ev(2) by auto
      ultimately have "\<exists>ev. trace (snd (rollback ?bk w')) = trace w @ ev \<and>
               (\<forall>e \<in> set ev. set (accessed e) \<subseteq> A)" by blast
      then show ?thesis using raise(1) fr r(1) by simp
    next
      case (nxt ob w' out)
      let ?bk = "bk @ [(t, ob)]"
      have bk': "\<forall>(t, ob) \<in> set ?bk. t \<in> A \<and> (\<forall>bf. ob = Some bf \<longrightarrow> bf \<in> A)"
        using nxt(2) Cons.prems(2) tA by auto
      have fr: "\<forall>q. q \<notin> A \<longrightarrow> files w' q = files w q"
        using nxt(3) tA by (auto split: option.splits)
      obtain ev where ev: "trace w' = trace w @ ev" "\<forall>e \<in> set ev. set (accessed e) \<subseteq> A"
        using nxt(4) tA by (cases "files w t") auto
      from Cons.IH [OF rest bk', of w']
      obtain ev' where r:
        "\<forall>q. q \<notin> A \<longrightarrow> files (snd (apply_patches ad base_path cwd ps ?bk w')) q = files w' q"
        "trace (snd (apply_patches ad base_path cwd ps ?bk w')) = trace w' @ ev'"
        "\<forall>e \<in> set ev'. set (accessed e) \<subseteq> A"
        by blast
      have "trace (snd (apply_patches ad base_path cwd ps ?bk w')) = trace w @ (ev @ ev')"
        using r(2) ev(1) by simp
      moreover have "\<forall>e \<in> set (ev @ ev'). set (accessed e) \<subseteq> A"
        using r(3) ev(2) by auto
      ultimately have "\<exists>ev. trace (snd (apply_patches ad base_path cwd ps ?bk w')) = trace w @ ev \<and>
               (\<forall>e \<in> set ev. set (accessed e) \<subseteq> A)" by blast
      then show ?thesis using nxt(1) fr r(1) by simp
    qed
  qed
qed

section \<open>What a call leaves alone\<close>

lemma targets_patch:
  "t \<in> set (targets base_path cwd ps) \<Longrightarrow> \<exists>p \<in> set ps. patch_target base_path cwd p = Some t"
  by (induction ps) (auto simp: targets_Nil targets_Cons split: option.splits)

lemma backup_file_of_target:
  assumes "t \<in> set (targets base_path cwd ps)"
  shows "backup_file base_path cwd t
         = base_dir base_path cwd @ [''.akita'', ''backups'', path_name t @ ''.bak'']"
proof -
  from targets_patch [OF assms] obtain p where "patch_target base_path cwd p = Some t" by blast
  then have "\<forall>c \<in> set t. CHR ''/'' \<notin> set c" by (rule patch_target_no_slash)
  then show ?thesis by (intro backup_file_eq path_name_no_slash)
qed


text \<open>
  Claim C10. A path that is not the resolved target of a patch of the diff and does not lie
  under \<^verbatim>\<open>.akita/backups\<close> of the base directory holds after the call what it held
  before (the same content, or no file as before), whatever the call returns. The
  statement covers every path, in the base directory or not.
\<close>

theorem other_files_unchanged:
  assumes "q \<notin> set (targets base_path cwd patches)"
    and "\<not> prefix (base_dir base_path cwd @ [''.akita'', ''backups'']) q"
  shows "files (snd (apply_unified_diff ad patches base_path cwd w)) q = files w q"
proof (cases "patches = []")
  case True
  then show ?thesis by (simp add: apply_unified_diff_def)
next
  case False
  let ?A = "set (targets base_path cwd patches)
            \<union> {q. prefix (base_dir base_path cwd @ [''.akita'', ''backups'']) q}"
  let ?w = "mkdir_parents (resolve cwd (backup_dir base_path)) w"
  have 1: "\<forall>t \<in> set (targets base_path cwd patches). t \<in> ?A \<and> backup_file base_path cwd t \<in> ?A"
    by (auto simp: backup_file_of_target)
  have 2: "\<forall>(t, ob) \<in> set []. t \<in> ?A \<and> (\<forall>bf. ob = Some bf \<longrightarrow> bf \<in> ?A)" by simp
  have "q \<notin> ?A" using assms by simp
  with apply_patches_within [OF 1 2, of ad ?w]
  have "files (snd (apply_patches ad base_path cwd patches [] ?w)) q = files ?w q" by blast
  then show ?thesis using False by (simp add: apply_unified_diff_def mkdir_parents_def)
qed

lemma targets_twin:
  "targets ''/tmp/proj'' ''/'' [twin_patch_1] = [[''tmp'', ''proj'', ''sub1'', ''x.py'']]"
  by (simp add: targets_def patch_target_def twin_patch_1_def rel_path_of_def target_file_def
      strip_ab_def Path_def joinpath_def resolve_def up_step_def is_absolute_def)

theorem other_files_unchanged_witness:
  "[''tmp'', ''proj'', ''sub2'', ''x.py''] \<notin> set (targets ''/tmp/proj'' ''/'' [twin_patch_1]) \<and>
   \<not> prefix (base_dir ''/tmp/proj'' ''/'' @ [''.akita'', ''backups''])
       [''tmp'', ''proj'', ''sub2'', ''x.py''] \<and>
   files (snd (apply_unified_diff apply_diff [twin_patch_1] ''/tmp/proj'' ''/'' twin_world))
     [''tmp'', ''proj'', ''sub2'', ''x.py''] = Some ''content 2\<newline>''"
proof -
  have a: "[''tmp'', ''proj'', ''sub2'', ''x.py''] \<notin> set (targets ''/tmp/proj'' ''/'' [twin_patch_1])"
    by (simp add: targets_twin)
  have b: "\<not> prefix (base_dir ''/tmp/proj'' ''/'' @ [''.akita'', ''backups''])
       [''tmp'', ''proj'', ''sub2'', ''x.py'']"
    by (simp add: base_dir_tmp_proj)
  have c: "files twin_world [''tmp'', ''proj'', ''sub2'', ''x.py''] = Some ''content 2\<newline>''"
    by (simp add: twin_world_def)
  show ?thesis
    using other_files_unchanged [OF a b, of apply_diff twin_world] a b c by simp
qed

section \<open>Confinement to the base directory\<close>






section \<open>Patches without a usable path\<close>

lemma skipped_patch_target: "skipped p \<longleftrightarrow> patch_target base_path cwd p = None"
  by (auto simp: skipped_def patch_target_def split: option.splits)

lemma apply_patches_filter:
  "apply_patches ad base_path cwd (filter (\<lambda>p. \<not> skipped p) ps) bk w
   = apply_patches ad base_path cwd ps bk w"
proof (induction ps arbitrary: bk w)
  case Nil
  show ?case by simp
next
  case (Cons p ps)
  show ?case
  proof (cases "skipped p")
    case True
    then have "apply_patch ad base_path cwd p bk w = Next bk w"
      by (simp add: skipped_patch_target [of p base_path cwd] apply_patch_skip)
    with True Cons.IH show ?thesis by simp
  next
    case False
    with Cons.IH show ?thesis by (simp split: step.splits)
  qed
qed

text \<open>
  Claim C5, as the code has it. A patch without header, or whose path (the one chosen at
  lines 32 to 41) is empty or \<^verbatim>\<open>/dev/null\<close>, is passed over by \<^verbatim>\<open>continue\<close>: a call on
  a diff that is not empty behaves as the call on the diff without these patches, and
  when no other patch is left it returns \<^verbatim>\<open>True\<close> after making the backup directory.
\<close>

theorem skipped_patches_are_passed_over:
  assumes "patches \<noteq> []"
  shows "apply_unified_diff ad patches base_path cwd w =
           (if filter (\<lambda>p. \<not> skipped p) patches = []
            then (Returned True, mkdir_parents (resolve cwd (backup_dir base_path)) w)
            else apply_unified_diff ad (filter (\<lambda>p. \<not> skipped p) patches) base_path cwd w)"
proof -
  let ?w = "mkdir_parents (resolve cwd (backup_dir base_path)) w"
  have "apply_unified_diff ad patches base_path cwd w
        = apply_patches ad base_path cwd (filter (\<lambda>p. \<not> skipped p) patches) [] ?w"
    using assms by (simp add: apply_unified_diff_def apply_patches_filter)
  then show ?thesis by (simp add: apply_unified_diff_def)
qed

theorem skipped_patches_are_passed_over_witness:
  "[null_patch] \<noteq> [] \<and> filter (\<lambda>p. \<not> skipped p) [null_patch] = [] \<and>
   apply_unified_diff apply_diff [null_patch] ''/tmp/proj'' ''/'' hello_world
     = (Returned True, mkdir_parents [''tmp'', ''proj'', ''.akita'', ''backups''] hello_world)"
proof -
  have s: "skipped null_patch"
    by (simp add: skipped_def null_patch_def rel_path_of_def)
  have n: "[null_patch] \<noteq> []" by simp
  show ?thesis
    using skipped_patches_are_passed_over [OF n, of apply_diff "''/tmp/proj''" "''/''" hello_world] s
    by (simp add: resolve_backup_dir base_dir_tmp_proj)
qed

text \<open>
  Claim C5 as stated fails: for the single patch with \<^verbatim>\<open>/dev/null\<close> on both sides the
  call returns \<^verbatim>\<open>True\<close>, with no file changed.
\<close>

theorem null_patch_returns_success:
  "header null_patch = Some \<lparr>old_path = ''/dev/null'', new_path = ''/dev/null''\<rparr> \<and>
   fst (apply_unified_diff apply_diff [null_patch] ''/tmp/proj'' ''/'' hello_world)
     = Returned True \<and>
   files (snd (apply_unified_diff apply_diff [null_patch] ''/tmp/proj'' ''/'' hello_world))
     = files hello_world"
  by (simp add: run_defs null_patch_def hello_world_def)

section \<open>Patches that delete a file\<close>






section \<open>The order of the rollback\<close>









section \<open>The backup files\<close>





section \<open>Patches that create a file\<close>








section \<open>The early return and the name of the backup\<close>

text \<open>
  Claim C2, at a failing input. The project holds \<^verbatim>\<open>hello.py\<close>; the diff first patches
  \<^verbatim>\<open>hello.py\<close> and then a file \<^verbatim>\<open>missing.py\<close> that does not exist. The call returns
  \<^verbatim>\<open>False\<close> at line 54 without entering the rollback, and \<^verbatim>\<open>hello.py\<close> keeps the
  content written for the first patch.
\<close>

theorem missing_target_keeps_earlier_write:
  "fst (apply_unified_diff apply_diff [hello_patch, missing_patch] ''/tmp/proj'' ''/''
          hello_world) = Returned False \<and>
   files (snd (apply_unified_diff apply_diff [hello_patch, missing_patch] ''/tmp/proj'' ''/''
          hello_world)) [''tmp'', ''proj'', ''hello.py'']
     = Some ''print('hello world')\<newline>'' \<and>
   files hello_world [''tmp'', ''proj'', ''hello.py''] = Some ''print('hello')\<newline>''"
  by (simp add: run_defs hello_patch_def missing_patch_def hello_world_def)

text \<open>
  Claim C1, at a failing input. Two files \<^verbatim>\<open>sub1/x.py\<close> and \<^verbatim>\<open>sub2/x.py\<close> are patched
  and the context of the second patch does not match. Both backups are written to
  \<^verbatim>\<open>.akita/backups/x.py.bak\<close>, so the rollback moves the backup of \<^verbatim>\<open>sub2/x.py\<close> onto
  \<^verbatim>\<open>sub1/x.py\<close>: the call returns \<^verbatim>\<open>False\<close> and \<^verbatim>\<open>sub1/x.py\<close> holds the content of
  \<^verbatim>\<open>sub2/x.py\<close>, not its own content before the call.
\<close>

theorem twin_names_rollback_wrong_content:
  "fst (apply_unified_diff apply_diff [twin_patch_1, twin_patch_2] ''/tmp/proj'' ''/''
          twin_world) = Returned False \<and>
   files (snd (apply_unified_diff apply_diff [twin_patch_1, twin_patch_2] ''/tmp/proj'' ''/''
          twin_world)) [''tmp'', ''proj'', ''sub1'', ''x.py''] = Some ''content 2\<newline>'' \<and>
   files twin_world [''tmp'', ''proj'', ''sub1'', ''x.py''] = Some ''content 1\<newline>''"
  by (simp add: run_defs twin_patch_1_def twin_patch_2_def twin_world_def)

end
